theory Spec2Isabelle
  imports Main "HOL-Library.Sublist"
begin

section \<open>The in-memory rate limiter (utils/rateLimiter.js)\<close>

text \<open>
  The limiter keeps one record per client address in a module-level \<open>Map\<close>. The
  functions below are the functions of the source, with the map passed in and returned,
  and every reading of the clock (\<open>Date.now()\<close>) passed in: \<open>now\<close> for the reading
  \<open>checkRateLimit\<close> and \<open>cleanupOldEntries\<close> take on entry, \<open>later\<close> for the reading
  \<open>isBlocked\<close> takes when \<open>checkRateLimit\<close> calls it. \<open>checkRateLimit_reads\<close> is the
  source's \<open>checkRateLimit\<close> with both readings; \<open>checkRateLimit\<close> is the same call when
  the clock does not tick between them.
  Timestamps are milliseconds, modelled as \<open>int\<close>; the limits read from the environment
  with \<open>parseInt\<close> are taken as integers.
\<close>

subsection \<open>Data\<close>

text \<open>The object stored per address: \<open>{ minuteTimestamps, hourTimestamps, blockedUntil }\<close>,
  where \<open>blockedUntil\<close> is a number or \<open>null\<close>.\<close>

record ip_data =
  minuteTimestamps :: "int list"
  hourTimestamps :: "int list"
  blockedUntil :: "int option"

text \<open>\<open>requestCounts\<close>: the map from address to record.\<close>

type_synonym requestCounts = "string \<rightharpoonup> ip_data"

text \<open>\<open>RATE_LIMIT_CONFIG\<close>: the object of five numbers the checks read.\<close>

record config =
  MAX_REQUESTS_PER_MINUTE :: int
  MAX_REQUESTS_PER_HOUR :: int
  MINUTE_WINDOW :: int
  HOUR_WINDOW :: int
  BLOCK_DURATION :: int

text \<open>The source fixes the two windows and reads the three other values from the
  environment (defaults 10, 60 and 600000).\<close>

definition RATE_LIMIT_CONFIG :: "int \<Rightarrow> int \<Rightarrow> int \<Rightarrow> config" where
  "RATE_LIMIT_CONFIG perMinute perHour blockDuration =
     \<lparr>MAX_REQUESTS_PER_MINUTE = perMinute,
      MAX_REQUESTS_PER_HOUR = perHour,
      MINUTE_WINDOW = 60000,
      HOUR_WINDOW = 3600000,
      BLOCK_DURATION = blockDuration\<rparr>"

definition MAX_ENTRY_AGE :: int where
  "MAX_ENTRY_AGE = 300000"

text \<open>The three message templates of a refusal, each with the value it interpolates:
  the block's end, the per-minute limit, the per-hour limit.\<close>

datatype message =
    BlockedMessage int
  | MinuteLimitMessage int
  | HourLimitMessage int

text \<open>The object \<open>checkRateLimit\<close> returns; \<open>resetAt\<close> is the number the \<open>Date\<close> is
  built from, which is its time value within the range of \<open>Date\<close>, and \<open>message\<close> is
  \<open>null\<close> for an admitted request.\<close>

record decision =
  allowed :: bool
  remaining :: int
  resetAt :: int
  message :: "message option"

subsection \<open>JavaScript operators on numbers that may be missing\<close>

text \<open>\<open>xs[0]\<close>: \<open>undefined\<close> on an empty array.\<close>

definition first :: "int list \<Rightarrow> int option" where
  "first xs = (case xs of [] \<Rightarrow> None | x # _ \<Rightarrow> Some x)"

text \<open>\<open>v || d\<close>: the default is taken when \<open>v\<close> is \<open>undefined\<close>, \<open>null\<close> or \<open>0\<close>.\<close>

definition or_default :: "int option \<Rightarrow> int \<Rightarrow> int" where
  "or_default v d = (case v of None \<Rightarrow> d | Some x \<Rightarrow> if x = 0 then d else x)"

text \<open>\<open>!v\<close> on a number or \<open>null\<close>.\<close>

definition falsy :: "int option \<Rightarrow> bool" where
  "falsy v = (case v of None \<Rightarrow> True | Some x \<Rightarrow> x = 0)"

text \<open>The number \<open>v\<close> stands for in a comparison and in \<open>new Date(v)\<close>: \<open>null\<close>
  converts to 0. The time value of \<open>new Date(v)\<close> is this number as long as it lies
  within the range of \<open>Date\<close>, 8640000000000000 ms either side of 0; beyond it the
  \<open>Date\<close> is invalid and has no time value.\<close>

definition date_value :: "int option \<Rightarrow> int" where
  "date_value v = (case v of None \<Rightarrow> 0 | Some x \<Rightarrow> x)"

definition in_Date_range :: "int \<Rightarrow> bool" where
  "in_Date_range v = (\<bar>v\<bar> \<le> 8640000000000000)"

subsection \<open>cleanupOldEntries\<close>

definition oldestTimestamp :: "int \<Rightarrow> ip_data \<Rightarrow> int" where
  "oldestTimestamp now data =
     min (min (or_default (first (minuteTimestamps data)) now)
              (or_default (first (hourTimestamps data)) now))
         (or_default (blockedUntil data) 0)"

text \<open>The loop visits every entry once and deletes the entry it is visiting, so each
  address is decided on its own record.\<close>

definition cleanupOldEntries :: "int \<Rightarrow> requestCounts \<Rightarrow> requestCounts" where
  "cleanupOldEntries now counts =
     (\<lambda>ip. case counts ip of
        None \<Rightarrow> None
      | Some data \<Rightarrow>
          if now - oldestTimestamp now data > MAX_ENTRY_AGE then None else Some data)"

subsection \<open>isBlocked\<close>

text \<open>Returns the answer and the map, in which an expired block has been reset to \<open>null\<close>.\<close>

definition isBlocked :: "int \<Rightarrow> requestCounts \<Rightarrow> string \<Rightarrow> bool \<times> requestCounts" where
  "isBlocked now counts ip =
     (case counts ip of
        None \<Rightarrow> (False, counts)
      | Some data \<Rightarrow>
          if falsy (blockedUntil data) then (False, counts)
          else if now < date_value (blockedUntil data) then (True, counts)
          else (False, counts(ip \<mapsto> data\<lparr>blockedUntil := None\<rparr>)))"

subsection \<open>checkRateLimit\<close>

definition new_data :: ip_data where
  "new_data = \<lparr>minuteTimestamps = [], hourTimestamps = [], blockedUntil = None\<rparr>"

text \<open>Lines 88 to 98: the record of the address, created when missing.\<close>

definition lookup_data :: "requestCounts \<Rightarrow> string \<Rightarrow> ip_data" where
  "lookup_data counts ip = (case counts ip of None \<Rightarrow> new_data | Some data \<Rightarrow> data)"

text \<open>Lines 112 to 117: the two filters.\<close>

definition clean_old :: "config \<Rightarrow> int \<Rightarrow> ip_data \<Rightarrow> ip_data" where
  "clean_old cfg now data =
     data\<lparr>minuteTimestamps :=
            filter (\<lambda>timestamp. now - timestamp < MINUTE_WINDOW cfg) (minuteTimestamps data),
          hourTimestamps :=
            filter (\<lambda>timestamp. now - timestamp < HOUR_WINDOW cfg) (hourTimestamps data)\<rparr>"

text \<open>Lines 119 to 165, on the cleaned record: the two limits, then the admission.\<close>

definition decide :: "config \<Rightarrow> int \<Rightarrow> ip_data \<Rightarrow> ip_data \<times> decision" where
  "decide cfg now data =
     (if int (length (minuteTimestamps data)) \<ge> MAX_REQUESTS_PER_MINUTE cfg then
        (data\<lparr>blockedUntil := Some (now + BLOCK_DURATION cfg)\<rparr>,
         \<lparr>allowed = False, remaining = 0, resetAt = now + BLOCK_DURATION cfg,
          message = Some (MinuteLimitMessage (MAX_REQUESTS_PER_MINUTE cfg))\<rparr>)
      else if int (length (hourTimestamps data)) \<ge> MAX_REQUESTS_PER_HOUR cfg then
        (data\<lparr>blockedUntil := Some (now + BLOCK_DURATION cfg)\<rparr>,
         \<lparr>allowed = False, remaining = 0, resetAt = now + BLOCK_DURATION cfg,
          message = Some (HourLimitMessage (MAX_REQUESTS_PER_HOUR cfg))\<rparr>)
      else
        (let data' = data\<lparr>minuteTimestamps := minuteTimestamps data @ [now],
                          hourTimestamps := hourTimestamps data @ [now]\<rparr>;
             remainingMinute = MAX_REQUESTS_PER_MINUTE cfg - int (length (minuteTimestamps data'));
             remainingHour = MAX_REQUESTS_PER_HOUR cfg - int (length (hourTimestamps data'));
             oldestMinute = or_default (first (minuteTimestamps data')) now;
             oldestHour = or_default (first (hourTimestamps data')) now
         in (data',
             \<lparr>allowed = True, remaining = min remainingMinute remainingHour,
              resetAt = min (oldestMinute + MINUTE_WINDOW cfg) (oldestHour + HOUR_WINDOW cfg),
              message = None\<rparr>)))"

text \<open>The whole function, with its two readings of the clock: \<open>now\<close> is read on entry
  (line 87) and is what the filters compare with and what is recorded; \<open>later\<close> is what
  \<open>isBlocked\<close> reads (line 72) when it tests the block. \<open>data\<close> is a reference to the
  object in the map, so what \<open>isBlocked\<close> resets is read back from the map before the
  filters run.\<close>

definition checkRateLimit_reads ::
  "config \<Rightarrow> int \<Rightarrow> int \<Rightarrow> requestCounts \<Rightarrow> string \<Rightarrow> requestCounts \<times> decision" where
  "checkRateLimit_reads cfg now later counts ip =
     (let counts1 = counts(ip \<mapsto> lookup_data counts ip);
          (blocked, counts2) = isBlocked later counts1 ip;
          data = lookup_data counts2 ip
      in if blocked then
           (counts2,
            \<lparr>allowed = False, remaining = 0, resetAt = date_value (blockedUntil data),
             message = Some (BlockedMessage (date_value (blockedUntil data)))\<rparr>)
         else
           (let (data', d) = decide cfg now (clean_old cfg now data)
            in (counts2(ip \<mapsto> data'), d)))"

text \<open>A call during which the clock does not tick: both readings are \<open>now\<close>.\<close>

definition checkRateLimit ::
  "config \<Rightarrow> int \<Rightarrow> requestCounts \<Rightarrow> string \<Rightarrow> requestCounts \<times> decision" where
  "checkRateLimit cfg now counts ip = checkRateLimit_reads cfg now now counts ip"

subsection \<open>Sequences of requests\<close>

text \<open>The handlers call \<open>checkRateLimit\<close> once per request; \<open>run\<close> is a sequence of such
  calls, each with its address and its clock reading, and collects the decisions.\<close>

fun run :: "config \<Rightarrow> (string \<times> int) list \<Rightarrow> requestCounts \<Rightarrow> requestCounts \<times> decision list" where
  "run cfg [] counts = (counts, [])"
| "run cfg ((ip, now) # reqs) counts =
     (let (counts1, d) = checkRateLimit cfg now counts ip;
          (counts2, ds) = run cfg reqs counts1
      in (counts2, d # ds))"

text \<open>The same address at each of the given times.\<close>

definition checks :: "config \<Rightarrow> string \<Rightarrow> int list \<Rightarrow> requestCounts \<Rightarrow> requestCounts \<times> decision list" where
  "checks cfg ip nows counts = run cfg (map (Pair ip) nows) counts"

text \<open>Calls with their two readings each: the address, the reading on entry and the
  reading inside \<open>isBlocked\<close>.\<close>

fun run_reads ::
  "config \<Rightarrow> (string \<times> int \<times> int) list \<Rightarrow> requestCounts \<Rightarrow> requestCounts \<times> decision list" where
  "run_reads cfg [] counts = (counts, [])"
| "run_reads cfg ((ip, now, later) # reqs) counts =
     (let (counts1, d) = checkRateLimit_reads cfg now later counts ip;
          (counts2, ds) = run_reads cfg reqs counts1
      in (counts2, d # ds))"

subsection \<open>The functions with the exception a property access can raise\<close>

text \<open>
  The only operation of \<open>isBlocked\<close> and \<open>checkRateLimit\<close> that can throw is a property
  access on a \<open>data\<close> that is \<open>undefined\<close>, which raises a \<open>TypeError\<close>
  (\<open>Map.prototype.get\<close>, \<open>filter\<close>, \<open>push\<close>, \<open>new Date\<close> and \<open>toLocaleTimeString\<close> do not
  throw, whatever the key and the numbers). In this second embedding \<open>data\<close> is what
  \<open>requestCounts.get(ip)\<close> returns, a record or \<open>undefined\<close>, every read and every
  assignment of a property of \<open>data\<close> can fail, and a failure ends the call.
\<close>

datatype js_error = TypeError

text \<open>\<open>data.field\<close>, read.\<close>

definition get_prop :: "ip_data option \<Rightarrow> (ip_data \<Rightarrow> 'a) \<Rightarrow> js_error + 'a" where
  "get_prop data field = (case data of None \<Rightarrow> Inl TypeError | Some obj \<Rightarrow> Inr (field obj))"

text \<open>\<open>data.field = ...\<close>: the object with the assignment made.\<close>

definition set_prop :: "ip_data option \<Rightarrow> (ip_data \<Rightarrow> ip_data) \<Rightarrow> js_error + ip_data" where
  "set_prop data assign = (case data of None \<Rightarrow> Inl TypeError | Some obj \<Rightarrow> Inr (assign obj))"

text \<open>The statements after one that may throw.\<close>

definition and_then :: "js_error + 'a \<Rightarrow> ('a \<Rightarrow> js_error + 'b) \<Rightarrow> js_error + 'b" where
  "and_then r rest = (case r of Inl e \<Rightarrow> Inl e | Inr v \<Rightarrow> rest v)"

text \<open>\<open>isBlocked\<close>, lines 66 to 79. \<open>!data || !data.blockedUntil\<close> reads the property only
  when \<open>data\<close> is defined.\<close>

definition isBlocked_throwing ::
  "int \<Rightarrow> requestCounts \<Rightarrow> string \<Rightarrow> js_error + (bool \<times> requestCounts)" where
  "isBlocked_throwing now counts ip =
     (let data = counts ip
      in if data = None then Inr (False, counts)
         else and_then (get_prop data blockedUntil) (\<lambda>b.
           if falsy b then Inr (False, counts)
           else and_then (get_prop data blockedUntil) (\<lambda>b'.
             if now < date_value b' then Inr (True, counts)
             else and_then (set_prop data (\<lambda>obj. obj\<lparr>blockedUntil := None\<rparr>)) (\<lambda>obj'.
               Inr (False, counts(ip \<mapsto> obj'))))))"

text \<open>\<open>checkRateLimit\<close>, lines 86 to 166. After \<open>isBlocked\<close> the variable \<open>data\<close> still
  refers to the object stored under \<open>ip\<close>; the first property access after the call is
  line 102 in the blocked branch and line 112 otherwise, and the accesses that follow in
  the same branch are on the same object.\<close>

definition checkRateLimit_throwing ::
  "config \<Rightarrow> int \<Rightarrow> int \<Rightarrow> requestCounts \<Rightarrow> string \<Rightarrow> js_error + (requestCounts \<times> decision)" where
  "checkRateLimit_throwing cfg now later counts ip =
     (let counts1 = (if counts ip = None then counts(ip \<mapsto> new_data) else counts)
      in and_then (isBlocked_throwing later counts1 ip) (\<lambda>(blocked, counts2).
           let data = counts2 ip
           in if blocked then
                and_then (get_prop data blockedUntil) (\<lambda>b.
                  Inr (counts2,
                       \<lparr>allowed = False, remaining = 0, resetAt = date_value b,
                        message = Some (BlockedMessage (date_value b))\<rparr>))
              else
                and_then (set_prop data (clean_old cfg now)) (\<lambda>cleaned.
                  let (data', d) = decide cfg now cleaned
                  in Inr (counts2(ip \<mapsto> data'), d))))"

subsection \<open>Named conditions used in the statements\<close>

text \<open>What \<open>isBlocked\<close> leaves of a record it does not report as blocked: a block that
  has run out is reset to \<open>null\<close>.\<close>

definition unblock :: "ip_data \<Rightarrow> ip_data" where
  "unblock data = (if falsy (blockedUntil data) then data else data\<lparr>blockedUntil := None\<rparr>)"

text \<open>The condition under which \<open>isBlocked\<close> answers \<open>true\<close>.\<close>

definition active_block :: "int \<Rightarrow> ip_data \<Rightarrow> bool" where
  "active_block now data = (\<not> falsy (blockedUntil data) \<and> now < date_value (blockedUntil data))"

text \<open>\<open>retryAfter\<close> of the 429 response (lines 186 of the limiter and 605 of the chat
  handler): \<open>Math.ceil((resetAt - now) / 1000)\<close>.\<close>

definition retryAfter :: "int \<Rightarrow> decision \<Rightarrow> int" where
  "retryAfter now d = - ((- (resetAt d - now)) div 1000)"

text \<open>The invariant behind the nesting of the two windows: the hour list is ascending,
  none of its entries is later than the clock reading \<open>T\<close>, and the minute list is a
  suffix of it.\<close>

definition nested :: "int \<Rightarrow> ip_data \<Rightarrow> bool" where
  "nested T data =
     (sorted (hourTimestamps data) \<and> (\<forall>t\<in>set (hourTimestamps data). t \<le> T)
      \<and> suffix (minuteTimestamps data) (hourTimestamps data))"

text \<open>The definitions that evaluate a call on a concrete map.\<close>

lemmas limiter_defs =
  checkRateLimit_def checkRateLimit_reads_def isBlocked_def decide_def clean_old_def lookup_data_def new_data_def
  falsy_def date_value_def or_default_def first_def RATE_LIMIT_CONFIG_def Let_def

section \<open>Basic facts about one call\<close>

lemma lookup_data_update: "counts ip \<noteq> None \<Longrightarrow> counts(ip \<mapsto> lookup_data counts ip) = counts"
  by (auto simp: lookup_data_def fun_eq_iff)

lemma active_block_present: "active_block now (lookup_data counts ip) \<Longrightarrow> counts ip \<noteq> None"
  by (auto simp: active_block_def lookup_data_def new_data_def falsy_def split: option.splits)

lemma checkRateLimit_reads_blocked:
  assumes "active_block later (lookup_data counts ip)"
  shows "checkRateLimit_reads cfg now later counts ip =
    (counts, \<lparr>allowed = False, remaining = 0,
       resetAt = date_value (blockedUntil (lookup_data counts ip)),
       message = Some (BlockedMessage (date_value (blockedUntil (lookup_data counts ip))))\<rparr>)"
proof -
  from assms obtain data where d: "counts ip = Some data"
    using active_block_present by blast
  then have "counts(ip \<mapsto> data) = counts"
    by (auto simp: fun_eq_iff)
  then show ?thesis
    using assms d
    by (simp add: checkRateLimit_reads_def isBlocked_def active_block_def lookup_data_def)
qed

lemma checkRateLimit_reads_open:
  assumes "\<not> active_block later (lookup_data counts ip)"
  shows "checkRateLimit_reads cfg now later counts ip =
    (counts(ip \<mapsto> fst (decide cfg now (clean_old cfg now (unblock (lookup_data counts ip))))),
     snd (decide cfg now (clean_old cfg now (unblock (lookup_data counts ip)))))"
  using assms
  by (auto simp: checkRateLimit_reads_def isBlocked_def active_block_def unblock_def lookup_data_def
      split: prod.splits option.splits)

text \<open>The second reading matters only when the two readings lie on different sides of
  the end of a block.\<close>

lemma checkRateLimit_reads_same:
  assumes "active_block later (lookup_data counts ip) = active_block now (lookup_data counts ip)"
  shows "checkRateLimit_reads cfg now later counts ip = checkRateLimit cfg now counts ip"
proof (cases "active_block now (lookup_data counts ip)")
  case True
  with assms show ?thesis
    by (simp add: checkRateLimit_def checkRateLimit_reads_blocked)
next
  case False
  with assms show ?thesis
    by (simp add: checkRateLimit_def checkRateLimit_reads_open)
qed

lemma run_reads_same:
  "run_reads cfg (map (\<lambda>(ip, now). (ip, now, now)) reqs) counts = run cfg reqs counts"
  by (induction reqs arbitrary: counts) (auto simp: checkRateLimit_def)

lemma checkRateLimit_blocked:
  assumes "active_block now (lookup_data counts ip)"
  shows "checkRateLimit cfg now counts ip =
    (counts, \<lparr>allowed = False, remaining = 0,
       resetAt = date_value (blockedUntil (lookup_data counts ip)),
       message = Some (BlockedMessage (date_value (blockedUntil (lookup_data counts ip))))\<rparr>)"
  using assms unfolding checkRateLimit_def by (rule checkRateLimit_reads_blocked)

lemma checkRateLimit_open:
  assumes "\<not> active_block now (lookup_data counts ip)"
  shows "checkRateLimit cfg now counts ip =
    (counts(ip \<mapsto> fst (decide cfg now (clean_old cfg now (unblock (lookup_data counts ip))))),
     snd (decide cfg now (clean_old cfg now (unblock (lookup_data counts ip)))))"
  using assms unfolding checkRateLimit_def by (rule checkRateLimit_reads_open)

lemma decide_admit:
  assumes "int (length (minuteTimestamps data)) < MAX_REQUESTS_PER_MINUTE cfg"
    and "int (length (hourTimestamps data)) < MAX_REQUESTS_PER_HOUR cfg"
  shows "fst (decide cfg now data) =
      data\<lparr>minuteTimestamps := minuteTimestamps data @ [now],
           hourTimestamps := hourTimestamps data @ [now]\<rparr>"
    and "allowed (snd (decide cfg now data))"
    and "message (snd (decide cfg now data)) = None"
  using assms by (simp_all add: decide_def Let_def)

lemma decide_minute_limit:
  assumes "MAX_REQUESTS_PER_MINUTE cfg \<le> int (length (minuteTimestamps data))"
  shows "decide cfg now data =
     (data\<lparr>blockedUntil := Some (now + BLOCK_DURATION cfg)\<rparr>,
      \<lparr>allowed = False, remaining = 0, resetAt = now + BLOCK_DURATION cfg,
       message = Some (MinuteLimitMessage (MAX_REQUESTS_PER_MINUTE cfg))\<rparr>)"
  using assms by (simp add: decide_def)

lemma filter_all: "(\<forall>x\<in>set xs. P x) \<Longrightarrow> filter P xs = xs"
  by (induction xs) auto

lemma run_append:
  "run cfg (reqs @ reqs') counts =
     (fst (run cfg reqs' (fst (run cfg reqs counts))),
      snd (run cfg reqs counts) @ snd (run cfg reqs' (fst (run cfg reqs counts))))"
  by (induction reqs arbitrary: counts) (auto split: prod.splits)

lemma checks_Cons:
  "checks cfg ip (now # nows) counts =
     (fst (checks cfg ip nows (fst (checkRateLimit cfg now counts ip))),
      snd (checkRateLimit cfg now counts ip) #
      snd (checks cfg ip nows (fst (checkRateLimit cfg now counts ip))))"
  by (simp add: checks_def split: prod.splits)

lemma checks_Nil: "checks cfg ip [] counts = (counts, [])"
  by (simp add: checks_def)

lemma checks_append:
  "checks cfg ip (nows @ nows') counts =
     (fst (checks cfg ip nows' (fst (checks cfg ip nows counts))),
      snd (checks cfg ip nows counts) @ snd (checks cfg ip nows' (fst (checks cfg ip nows counts))))"
  by (simp add: checks_def run_append)

lemma lookup_data_upd: "lookup_data (counts(ip \<mapsto> data)) ip = data"
  by (simp add: lookup_data_def)

lemma decide_cases:
  "(allowed (snd (decide cfg now data)) \<and> message (snd (decide cfg now data)) = None \<and>
      fst (decide cfg now data) =
        data\<lparr>minuteTimestamps := minuteTimestamps data @ [now],
             hourTimestamps := hourTimestamps data @ [now]\<rparr>)
   \<or> (\<not> allowed (snd (decide cfg now data)) \<and> remaining (snd (decide cfg now data)) = 0 \<and>
      message (snd (decide cfg now data)) \<in>
        {Some (MinuteLimitMessage (MAX_REQUESTS_PER_MINUTE cfg)),
         Some (HourLimitMessage (MAX_REQUESTS_PER_HOUR cfg))} \<and>
      fst (decide cfg now data) = data\<lparr>blockedUntil := Some (now + BLOCK_DURATION cfg)\<rparr>)"
  by (simp add: decide_def Let_def)

lemma clean_old_unblock:
  "minuteTimestamps (clean_old cfg now (unblock data)) =
     filter (\<lambda>t. now - t < MINUTE_WINDOW cfg) (minuteTimestamps data)"
  "hourTimestamps (clean_old cfg now (unblock data)) =
     filter (\<lambda>t. now - t < HOUR_WINDOW cfg) (hourTimestamps data)"
  by (simp_all add: clean_old_def unblock_def)

lemma blocked_message_iff:
  "(\<exists>b. message (snd (checkRateLimit cfg now counts ip)) = Some (BlockedMessage b))
     \<longleftrightarrow> active_block now (lookup_data counts ip)"
proof (cases "active_block now (lookup_data counts ip)")
  case True
  then show ?thesis by (simp add: checkRateLimit_blocked)
next
  case False
  then show ?thesis
    using decide_cases[of cfg now "clean_old cfg now (unblock (lookup_data counts ip))"]
    by (auto simp: checkRateLimit_open)
qed

lemma checkRateLimit_other:
  "ip' \<noteq> ip \<Longrightarrow> fst (checkRateLimit cfg now counts ip) ip' = counts ip'"
  by (cases "active_block now (lookup_data counts ip)")
     (simp_all add: checkRateLimit_blocked checkRateLimit_open)

lemma checkRateLimit_local:
  assumes "counts ip = counts' ip"
  shows "snd (checkRateLimit cfg now counts ip) = snd (checkRateLimit cfg now counts' ip)"
    and "fst (checkRateLimit cfg now counts ip) ip = fst (checkRateLimit cfg now counts' ip) ip"
proof -
  have l: "lookup_data counts ip = lookup_data counts' ip"
    using assms by (simp add: lookup_data_def)
  show "snd (checkRateLimit cfg now counts ip) = snd (checkRateLimit cfg now counts' ip)"
    by (cases "active_block now (lookup_data counts' ip)")
       (simp_all add: checkRateLimit_blocked checkRateLimit_open l)
  show "fst (checkRateLimit cfg now counts ip) ip = fst (checkRateLimit cfg now counts' ip) ip"
    using assms by (cases "active_block now (lookup_data counts' ip)")
       (simp_all add: checkRateLimit_blocked checkRateLimit_open l)
qed

lemma run_Cons:
  "run cfg ((ip, now) # reqs) counts =
     (fst (run cfg reqs (fst (checkRateLimit cfg now counts ip))),
      snd (checkRateLimit cfg now counts ip) #
      snd (run cfg reqs (fst (checkRateLimit cfg now counts ip))))"
  by (simp split: prod.splits)

section \<open>No call throws\<close>

lemma isBlocked_throwing_eq: "isBlocked_throwing now counts ip = Inr (isBlocked now counts ip)"
  by (cases "counts ip")
     (simp_all add: isBlocked_throwing_def isBlocked_def get_prop_def set_prop_def and_then_def)

lemma isBlocked_keeps_entry:
  "counts ip \<noteq> None \<Longrightarrow> snd (isBlocked now counts ip) ip \<noteq> None"
  by (auto simp: isBlocked_def)

lemma checkRateLimit_throwing_eq:
  "checkRateLimit_throwing cfg now later counts ip =
     Inr (checkRateLimit_reads cfg now later counts ip)"
proof -
  let ?counts1 = "counts(ip \<mapsto> lookup_data counts ip)"
  have c1: "(if counts ip = None then counts(ip \<mapsto> new_data) else counts) = ?counts1"
    by (auto simp: lookup_data_def fun_eq_iff)
  obtain blocked counts2 where b: "isBlocked later ?counts1 ip = (blocked, counts2)"
    by (cases "isBlocked later ?counts1 ip")
  have "snd (isBlocked later ?counts1 ip) ip \<noteq> None"
    by (rule isBlocked_keeps_entry) simp
  then obtain obj where o: "counts2 ip = Some obj"
    using b by auto
  then have l: "lookup_data counts2 ip = obj"
    by (simp add: lookup_data_def)
  show ?thesis
    by (simp add: checkRateLimit_throwing_def checkRateLimit_reads_def c1 isBlocked_throwing_eq
        and_then_def get_prop_def set_prop_def b o l split: prod.splits)
qed

text \<open>
  C9 (totality of the check). For every address string, the empty one and \<open>unknown\<close>
  included, every map, every pair of clock readings and every integer setting,
  \<open>checkRateLimit\<close> does not throw: it returns, together with the map, a decision, which
  is an object with the flag \<open>allowed\<close>, the count \<open>remaining\<close> and the time \<open>resetAt\<close>.
  A refusal is such a decision too, so it is the only failure a caller can see.
\<close>

theorem check_total:
  "\<exists>counts' d. checkRateLimit_throwing cfg now later counts ip = Inr (counts', d)"
  by (cases "checkRateLimit_reads cfg now later counts ip") (simp add: checkRateLimit_throwing_eq)

theorem check_total_witness:
  "checkRateLimit_throwing (RATE_LIMIT_CONFIG 10 60 600000) 1700000000000 1700000000001
        Map.empty '''' =
     Inr (Map.empty('''' \<mapsto> \<lparr>minuteTimestamps = [1700000000000],
                              hourTimestamps = [1700000000000], blockedUntil = None\<rparr>),
          \<lparr>allowed = True, remaining = 9, resetAt = 1700000060000, message = None\<rparr>)
   \<and> checkRateLimit_throwing (RATE_LIMIT_CONFIG 0 60 600000) 1700000000000 1700000000001
        Map.empty ''unknown'' =
     Inr ([''unknown'' \<mapsto> \<lparr>minuteTimestamps = [], hourTimestamps = [],
                blockedUntil = Some 1700000600000\<rparr>],
          \<lparr>allowed = False, remaining = 0, resetAt = 1700000600000,
           message = Some (MinuteLimitMessage 0)\<rparr>)"
  using check_total[of "RATE_LIMIT_CONFIG 10 60 600000" 1700000000000 1700000000001 Map.empty "''''"]
    check_total[of "RATE_LIMIT_CONFIG 0 60 600000" 1700000000000 1700000000001 Map.empty "''unknown''"]
  by (simp add: checkRateLimit_throwing_eq limiter_defs)

section \<open>Addresses do not influence each other\<close>

lemma run_other:
  "\<forall>req\<in>set reqs. fst req \<noteq> ip' \<Longrightarrow> fst (run cfg reqs counts) ip' = counts ip'"
proof (induction reqs arbitrary: counts)
  case Nil
  then show ?case by simp
next
  case (Cons req reqs)
  obtain ip now where req: "req = (ip, now)" by (cases req)
  with Cons.prems have "ip' \<noteq> ip" by auto
  then have "fst (checkRateLimit cfg now counts ip) ip' = counts ip'"
    by (rule checkRateLimit_other)
  moreover have "fst (run cfg reqs (fst (checkRateLimit cfg now counts ip))) ip' =
      fst (checkRateLimit cfg now counts ip) ip'"
    using Cons by simp
  ultimately show ?case
    by (simp add: req run_Cons del: run.simps)
qed

text \<open>
  C8 (independence across addresses). For two different addresses A and B, any sequence
  of calls for A, whatever they do to A's record, leaves B's entry of the map as it was,
  and the next call for B returns the same decision and leaves the same record for B as
  it would have without A's calls.
\<close>

theorem identity_independence:
  assumes "ipA \<noteq> ipB"
  shows "fst (checks cfg ipA nows counts) ipB = counts ipB
       \<and> snd (checkRateLimit cfg now (fst (checks cfg ipA nows counts)) ipB) =
           snd (checkRateLimit cfg now counts ipB)
       \<and> fst (checkRateLimit cfg now (fst (checks cfg ipA nows counts)) ipB) ipB =
           fst (checkRateLimit cfg now counts ipB) ipB"
proof -
  have "\<forall>req\<in>set (map (Pair ipA) nows). fst req \<noteq> ipB"
    using assms by simp
  then have same: "fst (checks cfg ipA nows counts) ipB = counts ipB"
    unfolding checks_def by (rule run_other)
  from same checkRateLimit_local[of "fst (checks cfg ipA nows counts)" ipB counts cfg now]
  show ?thesis
    by simp
qed

theorem identity_independence_witness:
  "fst (checks (RATE_LIMIT_CONFIG 2 60 600000) ''A'' [1000, 2000, 3000] 
         [''B'' \<mapsto> \<lparr>minuteTimestamps = [500], hourTimestamps = [500], blockedUntil = None\<rparr>]) ''B''
     = Some \<lparr>minuteTimestamps = [500], hourTimestamps = [500], blockedUntil = None\<rparr>
   \<and> snd (checkRateLimit (RATE_LIMIT_CONFIG 2 60 600000) 4000
        (fst (checks (RATE_LIMIT_CONFIG 2 60 600000) ''A'' [1000, 2000, 3000]
         [''B'' \<mapsto> \<lparr>minuteTimestamps = [500], hourTimestamps = [500], blockedUntil = None\<rparr>])) ''B'')
     = \<lparr>allowed = True, remaining = 0, resetAt = 60500, message = None\<rparr>
   \<and> map allowed (snd (checks (RATE_LIMIT_CONFIG 2 60 600000) ''A'' [1000, 2000, 3000] 
         [''B'' \<mapsto> \<lparr>minuteTimestamps = [500], hourTimestamps = [500], blockedUntil = None\<rparr>]))
     = [True, True, False]"
  using identity_independence[of "''A''" "''B''" "RATE_LIMIT_CONFIG 2 60 600000" "[1000, 2000, 3000]"
      "[''B'' \<mapsto> \<lparr>minuteTimestamps = [500], hourTimestamps = [500], blockedUntil = None\<rparr>]" 4000]
  by (simp add: checks_def limiter_defs)

section \<open>The filters\<close>

text \<open>
  C6 (pruning invariant). After the two filters every entry \<open>t\<close> left in the minute list
  has \<open>now - t < MINUTE_WINDOW\<close> and every entry left in the hour list has
  \<open>now - t < HOUR_WINDOW\<close>, each list filtered with its own window. A call that is not
  answered with the blocked message stores exactly these filtered lists, with \<open>now\<close>
  appended when the request is admitted. The periodic cleanup deletes whole records and
  never filters: a record it keeps is the record that was there.
\<close>

theorem pruning_invariant:
  "(\<forall>t\<in>set (minuteTimestamps (clean_old cfg now data)). now - t < MINUTE_WINDOW cfg)
   \<and> (\<forall>t\<in>set (hourTimestamps (clean_old cfg now data)). now - t < HOUR_WINDOW cfg)
   \<and> ((\<forall>b. message (snd (checkRateLimit cfg now counts ip)) \<noteq> Some (BlockedMessage b)) \<longrightarrow>
        (\<exists>data'. fst (checkRateLimit cfg now counts ip) ip = Some data'
           \<and> minuteTimestamps data' =
               minuteTimestamps (clean_old cfg now (lookup_data counts ip)) @
               (if allowed (snd (checkRateLimit cfg now counts ip)) then [now] else [])
           \<and> hourTimestamps data' =
               hourTimestamps (clean_old cfg now (lookup_data counts ip)) @
               (if allowed (snd (checkRateLimit cfg now counts ip)) then [now] else [])))
   \<and> (\<forall>data'. cleanupOldEntries now' counts ip = Some data' \<longrightarrow> counts ip = Some data')"
proof (intro conjI)
  show "\<forall>t\<in>set (minuteTimestamps (clean_old cfg now data)). now - t < MINUTE_WINDOW cfg"
    by (simp add: clean_old_def)
  show "\<forall>t\<in>set (hourTimestamps (clean_old cfg now data)). now - t < HOUR_WINDOW cfg"
    by (simp add: clean_old_def)
  show "\<forall>data'. cleanupOldEntries now' counts ip = Some data' \<longrightarrow> counts ip = Some data'"
    by (auto simp: cleanupOldEntries_def split: option.splits if_splits)
  show "(\<forall>b. message (snd (checkRateLimit cfg now counts ip)) \<noteq> Some (BlockedMessage b)) \<longrightarrow>
        (\<exists>data'. fst (checkRateLimit cfg now counts ip) ip = Some data'
           \<and> minuteTimestamps data' =
               minuteTimestamps (clean_old cfg now (lookup_data counts ip)) @
               (if allowed (snd (checkRateLimit cfg now counts ip)) then [now] else [])
           \<and> hourTimestamps data' =
               hourTimestamps (clean_old cfg now (lookup_data counts ip)) @
               (if allowed (snd (checkRateLimit cfg now counts ip)) then [now] else []))"
  proof
    assume "\<forall>b. message (snd (checkRateLimit cfg now counts ip)) \<noteq> Some (BlockedMessage b)"
    then have nb: "\<not> active_block now (lookup_data counts ip)"
      using blocked_message_iff[of cfg now counts ip] by blast
    have same: "minuteTimestamps (clean_old cfg now (lookup_data counts ip)) =
          minuteTimestamps (clean_old cfg now (unblock (lookup_data counts ip)))"
        "hourTimestamps (clean_old cfg now (lookup_data counts ip)) =
          hourTimestamps (clean_old cfg now (unblock (lookup_data counts ip)))"
      by (simp_all add: clean_old_def unblock_def)
    show "\<exists>data'. fst (checkRateLimit cfg now counts ip) ip = Some data'
           \<and> minuteTimestamps data' =
               minuteTimestamps (clean_old cfg now (lookup_data counts ip)) @
               (if allowed (snd (checkRateLimit cfg now counts ip)) then [now] else [])
           \<and> hourTimestamps data' =
               hourTimestamps (clean_old cfg now (lookup_data counts ip)) @
               (if allowed (snd (checkRateLimit cfg now counts ip)) then [now] else [])"
      using decide_cases[of cfg now "clean_old cfg now (unblock (lookup_data counts ip))"]
      by (auto simp: checkRateLimit_open[OF nb] same)
  qed
qed

theorem pruning_invariant_witness:
  "minuteTimestamps (clean_old (RATE_LIMIT_CONFIG 10 60 600000) 4000000
      \<lparr>minuteTimestamps = [3900000, 3950000, 3999000],
       hourTimestamps = [300000, 3900000, 3950000, 3999000], blockedUntil = None\<rparr>)
     = [3950000, 3999000]
   \<and> hourTimestamps (clean_old (RATE_LIMIT_CONFIG 10 60 600000) 4000000
      \<lparr>minuteTimestamps = [3900000, 3950000, 3999000],
       hourTimestamps = [300000, 3900000, 3950000, 3999000], blockedUntil = None\<rparr>)
     = [3900000, 3950000, 3999000]
   \<and> message (snd (checkRateLimit (RATE_LIMIT_CONFIG 10 60 600000) 4000000
        [''A'' \<mapsto> \<lparr>minuteTimestamps = [3900000, 3950000, 3999000],
           hourTimestamps = [300000, 3900000, 3950000, 3999000], blockedUntil = None\<rparr>] ''A''))
     = None
   \<and> fst (checkRateLimit (RATE_LIMIT_CONFIG 10 60 600000) 4000000
        [''A'' \<mapsto> \<lparr>minuteTimestamps = [3900000, 3950000, 3999000],
           hourTimestamps = [300000, 3900000, 3950000, 3999000], blockedUntil = None\<rparr>] ''A'') ''A''
     = Some \<lparr>minuteTimestamps = [3950000, 3999000, 4000000],
             hourTimestamps = [3900000, 3950000, 3999000, 4000000], blockedUntil = None\<rparr>
   \<and> cleanupOldEntries 4000000
        [''A'' \<mapsto> \<lparr>minuteTimestamps = [3900000, 3950000, 3999000],
           hourTimestamps = [3900000, 3950000, 3999000], blockedUntil = Some 4500000\<rparr>] ''A''
     = Some \<lparr>minuteTimestamps = [3900000, 3950000, 3999000],
           hourTimestamps = [3900000, 3950000, 3999000], blockedUntil = Some 4500000\<rparr>"
  using pruning_invariant[of "RATE_LIMIT_CONFIG 10 60 600000" 4000000
      "\<lparr>minuteTimestamps = [3900000, 3950000, 3999000],
        hourTimestamps = [300000, 3900000, 3950000, 3999000], blockedUntil = None\<rparr>"
      "[''A'' \<mapsto> \<lparr>minuteTimestamps = [3900000, 3950000, 3999000],
           hourTimestamps = [300000, 3900000, 3950000, 3999000], blockedUntil = None\<rparr>]"
      "''A''" 4000000]
  by (simp add: limiter_defs cleanupOldEntries_def oldestTimestamp_def MAX_ENTRY_AGE_def)

section \<open>A refused request is not recorded\<close>

text \<open>
  C7 (denial frame). When a call is refused, \<open>now\<close> is not appended: with the blocked
  message the whole map is unchanged, so the lists are not even filtered; with a limit
  message the stored lists are the filtered old lists and nothing more. In both cases
  neither list grows.
\<close>

theorem denial_frame:
  assumes "checkRateLimit cfg now counts ip = (counts', d)" and "\<not> allowed d"
  shows "((\<exists>b. message d = Some (BlockedMessage b)) \<longrightarrow> counts' = counts)
       \<and> ((\<forall>b. message d \<noteq> Some (BlockedMessage b)) \<longrightarrow>
            (\<exists>data'. counts' ip = Some data'
               \<and> minuteTimestamps data' =
                   filter (\<lambda>t. now - t < MINUTE_WINDOW cfg) (minuteTimestamps (lookup_data counts ip))
               \<and> hourTimestamps data' =
                   filter (\<lambda>t. now - t < HOUR_WINDOW cfg) (hourTimestamps (lookup_data counts ip))))
       \<and> length (minuteTimestamps (lookup_data counts' ip))
            \<le> length (minuteTimestamps (lookup_data counts ip))
       \<and> length (hourTimestamps (lookup_data counts' ip))
            \<le> length (hourTimestamps (lookup_data counts ip))"
proof (cases "active_block now (lookup_data counts ip)")
  case True
  with assms(1) have "counts' = counts" and "message d = Some (BlockedMessage (date_value (blockedUntil (lookup_data counts ip))))"
    by (auto simp: checkRateLimit_blocked)
  then show ?thesis by simp
next
  case False
  let ?c = "clean_old cfg now (unblock (lookup_data counts ip))"
  from assms(1) False have c': "counts' = counts(ip \<mapsto> fst (decide cfg now ?c))"
    and d: "d = snd (decide cfg now ?c)"
    by (simp_all add: checkRateLimit_open)
  from assms(2) d decide_cases[of cfg now ?c]
  have f: "fst (decide cfg now ?c) = ?c\<lparr>blockedUntil := Some (now + BLOCK_DURATION cfg)\<rparr>"
    by auto
  have nb: "\<forall>b. message d \<noteq> Some (BlockedMessage b)"
    using blocked_message_iff[of cfg now counts ip] False assms(1) by simp
  show ?thesis
    using nb by (simp add: c' f lookup_data_upd clean_old_unblock)
qed

theorem denial_frame_witness:
  "checkRateLimit (RATE_LIMIT_CONFIG 2 60 600000) 70000
      [''A'' \<mapsto> \<lparr>minuteTimestamps = [5000, 20000, 30000], hourTimestamps = [5000, 20000, 30000],
                  blockedUntil = None\<rparr>] ''A'' =
     ([''A'' \<mapsto> \<lparr>minuteTimestamps = [20000, 30000], hourTimestamps = [5000, 20000, 30000],
                  blockedUntil = Some 670000\<rparr>],
      \<lparr>allowed = False, remaining = 0, resetAt = 670000, message = Some (MinuteLimitMessage 2)\<rparr>)
   \<and> checkRateLimit (RATE_LIMIT_CONFIG 2 60 600000) 80000
      [''A'' \<mapsto> \<lparr>minuteTimestamps = [20000, 30000], hourTimestamps = [5000, 20000, 30000],
                  blockedUntil = Some 670000\<rparr>] ''A'' =
     ([''A'' \<mapsto> \<lparr>minuteTimestamps = [20000, 30000], hourTimestamps = [5000, 20000, 30000],
                  blockedUntil = Some 670000\<rparr>],
      \<lparr>allowed = False, remaining = 0, resetAt = 670000, message = Some (BlockedMessage 670000)\<rparr>)"
  using denial_frame[of "RATE_LIMIT_CONFIG 2 60 600000" 70000
      "[''A'' \<mapsto> \<lparr>minuteTimestamps = [5000, 20000, 30000], hourTimestamps = [5000, 20000, 30000],
                  blockedUntil = None\<rparr>]" "''A''"
      "[''A'' \<mapsto> \<lparr>minuteTimestamps = [20000, 30000], hourTimestamps = [5000, 20000, 30000],
                  blockedUntil = Some 670000\<rparr>]"
      "\<lparr>allowed = False, remaining = 0, resetAt = 670000, message = Some (MinuteLimitMessage 2)\<rparr>"]
    denial_frame[of "RATE_LIMIT_CONFIG 2 60 600000" 80000
      "[''A'' \<mapsto> \<lparr>minuteTimestamps = [20000, 30000], hourTimestamps = [5000, 20000, 30000],
                  blockedUntil = Some 670000\<rparr>]" "''A''"
      "[''A'' \<mapsto> \<lparr>minuteTimestamps = [20000, 30000], hourTimestamps = [5000, 20000, 30000],
                  blockedUntil = Some 670000\<rparr>]"
      "\<lparr>allowed = False, remaining = 0, resetAt = 670000, message = Some (BlockedMessage 670000)\<rparr>"]
  by (simp add: limiter_defs)

section \<open>What an admitted request gets back\<close>

lemma or_default_first_append:
  assumes "now \<noteq> 0" and "\<forall>t\<in>set xs. t \<noteq> 0"
  shows "or_default (first (xs @ [now])) now = hd (xs @ [now])"
  using assms by (cases xs) (simp_all add: or_default_def first_def)

text \<open>
  C4 (contract of an admitted request). The timestamps are readings of the clock, and a
  reading of the clock is not 0. When a call is admitted, the stored lists are the
  filtered old lists with \<open>now\<close> appended; \<open>remaining\<close> is the smaller of the two limits
  minus the lengths of these lists; and \<open>resetAt\<close> is the smaller of oldest minute entry
  plus minute window and oldest hour entry plus hour window, the oldest entry being the
  first of the list after the append, which is \<open>now\<close> when the list has no other entry.
\<close>

theorem allowed_contract:
  assumes "checkRateLimit_reads cfg now later counts ip = (counts', d)" and "allowed d"
    and "now \<noteq> 0"
    and "\<forall>t\<in>set (minuteTimestamps (lookup_data counts ip)) \<union>
              set (hourTimestamps (lookup_data counts ip)). t \<noteq> 0"
  shows "\<exists>data'. counts' ip = Some data'
     \<and> minuteTimestamps data' =
         filter (\<lambda>t. now - t < MINUTE_WINDOW cfg) (minuteTimestamps (lookup_data counts ip)) @ [now]
     \<and> hourTimestamps data' =
         filter (\<lambda>t. now - t < HOUR_WINDOW cfg) (hourTimestamps (lookup_data counts ip)) @ [now]
     \<and> remaining d =
         min (MAX_REQUESTS_PER_MINUTE cfg - int (length (minuteTimestamps data')))
             (MAX_REQUESTS_PER_HOUR cfg - int (length (hourTimestamps data')))
     \<and> resetAt d =
         min (hd (minuteTimestamps data') + MINUTE_WINDOW cfg)
             (hd (hourTimestamps data') + HOUR_WINDOW cfg)"
proof -
  let ?r = "lookup_data counts ip"
  let ?c = "clean_old cfg now (unblock ?r)"
  let ?ms = "filter (\<lambda>t. now - t < MINUTE_WINDOW cfg) (minuteTimestamps ?r)"
  let ?hs = "filter (\<lambda>t. now - t < HOUR_WINDOW cfg) (hourTimestamps ?r)"
  have nb: "\<not> active_block later ?r"
    using assms(1,2) by (auto simp: checkRateLimit_reads_blocked)
  with assms(1) have c': "counts' = counts(ip \<mapsto> fst (decide cfg now ?c))"
    and d: "d = snd (decide cfg now ?c)"
    by (simp_all add: checkRateLimit_reads_open)
  have lim: "\<not> MAX_REQUESTS_PER_MINUTE cfg \<le> int (length ?ms)"
      "\<not> MAX_REQUESTS_PER_HOUR cfg \<le> int (length ?hs)"
    using assms(2) d by (auto simp: decide_def clean_old_unblock split: if_splits)
  have om: "or_default (first (?ms @ [now])) now = hd (?ms @ [now])"
    using assms(3,4) by (intro or_default_first_append) auto
  have oh: "or_default (first (?hs @ [now])) now = hd (?hs @ [now])"
    using assms(3,4) by (intro or_default_first_append) auto
  show ?thesis
    using lim by (simp add: c' d decide_def Let_def om oh clean_old_unblock)
qed

theorem allowed_contract_witness:
  "checkRateLimit_reads (RATE_LIMIT_CONFIG 10 60 600000) 1700000100000 1700000100001
      [''A'' \<mapsto> \<lparr>minuteTimestamps = [1700000010000, 1700000050000],
                  hourTimestamps = [1699999000000, 1700000010000, 1700000050000],
                  blockedUntil = None\<rparr>] ''A'' =
     ([''A'' \<mapsto> \<lparr>minuteTimestamps = [1700000050000, 1700000100000],
                  hourTimestamps = [1699999000000, 1700000010000, 1700000050000, 1700000100000],
                  blockedUntil = None\<rparr>],
      \<lparr>allowed = True, remaining = 8, resetAt = 1700000110000, message = None\<rparr>)
   \<and> min (hd [1700000050000, 1700000100000] + MINUTE_WINDOW (RATE_LIMIT_CONFIG 10 60 600000))
         (hd [1699999000000, 1700000010000, 1700000050000, 1700000100000]
            + HOUR_WINDOW (RATE_LIMIT_CONFIG 10 60 600000)) = (1700000110000 :: int)"
  using allowed_contract[of "RATE_LIMIT_CONFIG 10 60 600000" 1700000100000 1700000100001
      "[''A'' \<mapsto> \<lparr>minuteTimestamps = [1700000010000, 1700000050000],
                  hourTimestamps = [1699999000000, 1700000010000, 1700000050000],
                  blockedUntil = None\<rparr>]" "''A''"
      "[''A'' \<mapsto> \<lparr>minuteTimestamps = [1700000050000, 1700000100000],
                  hourTimestamps = [1699999000000, 1700000010000, 1700000050000, 1700000100000],
                  blockedUntil = None\<rparr>]"
      "\<lparr>allowed = True, remaining = 8, resetAt = 1700000110000, message = None\<rparr>"]
  by (simp add: limiter_defs)

section \<open>Requests inside one minute window\<close>

text \<open>Requests of one address that all fall inside one minute window and stay under
  both limits are all admitted, and each is recorded.\<close>

lemma checks_admitted:
  assumes "falsy (blockedUntil (lookup_data counts ip))"
    and "\<forall>t\<in>set (minuteTimestamps (lookup_data counts ip)) \<union> set nows.
           \<forall>u\<in>set nows. u - t < MINUTE_WINDOW cfg"
    and "int (length (minuteTimestamps (lookup_data counts ip)) + length nows)
           \<le> MAX_REQUESTS_PER_MINUTE cfg"
    and "int (length (hourTimestamps (lookup_data counts ip)) + length nows)
           \<le> MAX_REQUESTS_PER_HOUR cfg"
  shows "map (\<lambda>d. (allowed d, message d)) (snd (checks cfg ip nows counts)) =
           replicate (length nows) (True, None)
         \<and> falsy (blockedUntil (lookup_data (fst (checks cfg ip nows counts)) ip))
         \<and> minuteTimestamps (lookup_data (fst (checks cfg ip nows counts)) ip) =
             minuteTimestamps (lookup_data counts ip) @ nows
         \<and> length (hourTimestamps (lookup_data (fst (checks cfg ip nows counts)) ip)) \<le>
             length (hourTimestamps (lookup_data counts ip)) + length nows"
  using assms
proof (induction nows arbitrary: counts)
  case Nil
  then show ?case by (simp add: checks_Nil)
next
  case (Cons now nows)
  let ?r = "lookup_data counts ip"
  let ?c = "clean_old cfg now (unblock ?r)"
  have nb: "\<not> active_block now ?r"
    using Cons.prems(1) by (simp add: active_block_def)
  have ub: "unblock ?r = ?r"
    using Cons.prems(1) by (simp add: unblock_def)
  have "\<forall>t\<in>set (minuteTimestamps ?r). now - t < MINUTE_WINDOW cfg"
    using Cons.prems(2) by simp
  then have m: "minuteTimestamps ?c = minuteTimestamps ?r"
    by (simp add: ub clean_old_def filter_all)
  have h: "length (hourTimestamps ?c) \<le> length (hourTimestamps ?r)"
    by (simp add: ub clean_old_def)
  have b: "blockedUntil ?c = blockedUntil ?r"
    by (simp add: ub clean_old_def)
  have lm: "int (length (minuteTimestamps ?c)) < MAX_REQUESTS_PER_MINUTE cfg"
    using Cons.prems(3) m by simp
  have lh: "int (length (hourTimestamps ?c)) < MAX_REQUESTS_PER_HOUR cfg"
    using Cons.prems(4) h by simp
  let ?counts1 = "fst (checkRateLimit cfg now counts ip)"
  let ?r1 = "lookup_data ?counts1 ip"
  have r1: "?r1 = ?c\<lparr>minuteTimestamps := minuteTimestamps ?c @ [now],
                       hourTimestamps := hourTimestamps ?c @ [now]\<rparr>"
    using decide_admit(1)[OF lm lh] by (simp add: checkRateLimit_open[OF nb] lookup_data_upd)
  have d1: "allowed (snd (checkRateLimit cfg now counts ip))"
      "message (snd (checkRateLimit cfg now counts ip)) = None"
    using decide_admit(2,3)[OF lm lh] by (simp_all add: checkRateLimit_open[OF nb])
  have p1: "falsy (blockedUntil ?r1)"
    using Cons.prems(1) by (simp add: r1 b)
  have m1: "minuteTimestamps ?r1 = minuteTimestamps ?r @ [now]"
    by (simp add: r1 m)
  have h1: "length (hourTimestamps ?r1) \<le> length (hourTimestamps ?r) + 1"
    using h by (simp add: r1)
  have p2: "\<forall>t\<in>set (minuteTimestamps ?r1) \<union> set nows. \<forall>u\<in>set nows. u - t < MINUTE_WINDOW cfg"
    using Cons.prems(2) by (auto simp: m1)
  have p3: "int (length (minuteTimestamps ?r1) + length nows) \<le> MAX_REQUESTS_PER_MINUTE cfg"
    using Cons.prems(3) by (simp add: m1)
  have p4: "int (length (hourTimestamps ?r1) + length nows) \<le> MAX_REQUESTS_PER_HOUR cfg"
    using Cons.prems(4) h1 by simp
  note IH = Cons.IH[OF p1 p2 p3 p4]
  show ?case
    using IH d1 h1 by (simp add: checks_Cons m1)
qed

section \<open>Threshold of the minute window\<close>

text \<open>
  C2 (threshold exactness). An address with no record, a per-minute limit \<open>N \<ge> 1\<close> that
  does not exceed the per-hour limit, and \<open>N + 1\<close> calls whose clock readings all lie
  within one minute window of each other: the first \<open>N\<close> calls are admitted (no
  message) and call \<open>N + 1\<close> is refused with the per-minute message.
\<close>

theorem threshold_exactness:
  assumes "counts ip = None"
    and "1 \<le> N"
    and "MAX_REQUESTS_PER_MINUTE cfg = N"
    and "N \<le> MAX_REQUESTS_PER_HOUR cfg"
    and "length nows = nat N + 1"
    and "\<forall>t\<in>set nows. \<forall>u\<in>set nows. u - t < MINUTE_WINDOW cfg"
  shows "map (\<lambda>d. (allowed d, message d)) (snd (checks cfg ip nows counts)) =
           replicate (nat N) (True, None) @ [(False, Some (MinuteLimitMessage N))]"
proof -
  from assms(5) obtain xs t where nows: "nows = xs @ [t]" and len: "length xs = nat N"
    by (metis Suc_eq_plus1 length_Suc_conv_rev)
  have r0: "lookup_data counts ip = new_data"
    using assms(1) by (simp add: lookup_data_def)
  have a1: "falsy (blockedUntil (lookup_data counts ip))"
    by (simp add: r0 new_data_def falsy_def)
  have a2: "\<forall>t\<in>set (minuteTimestamps (lookup_data counts ip)) \<union> set xs.
              \<forall>u\<in>set xs. u - t < MINUTE_WINDOW cfg"
    using assms(6) by (simp add: r0 new_data_def nows)
  have a3: "int (length (minuteTimestamps (lookup_data counts ip)) + length xs)
              \<le> MAX_REQUESTS_PER_MINUTE cfg"
    using assms(2,3) len by (simp add: r0 new_data_def)
  have a4: "int (length (hourTimestamps (lookup_data counts ip)) + length xs)
              \<le> MAX_REQUESTS_PER_HOUR cfg"
    using assms(2,4) len by (simp add: r0 new_data_def)
  let ?counts1 = "fst (checks cfg ip xs counts)"
  let ?r = "lookup_data ?counts1 ip"
  from checks_admitted[OF a1 a2 a3 a4]
  have ds: "map (\<lambda>d. (allowed d, message d)) (snd (checks cfg ip xs counts)) =
              replicate (nat N) (True, None)"
    and fb: "falsy (blockedUntil ?r)"
    and ms: "minuteTimestamps ?r = xs"
    by (simp_all add: r0 new_data_def len)
  have nb: "\<not> active_block t ?r"
    using fb by (simp add: active_block_def)
  have "\<forall>x\<in>set xs. t - x < MINUTE_WINDOW cfg"
    using assms(6) by (simp add: nows)
  then have "minuteTimestamps (clean_old cfg t (unblock ?r)) = xs"
    using fb by (simp add: unblock_def clean_old_def ms filter_all)
  then have "MAX_REQUESTS_PER_MINUTE cfg
      \<le> int (length (minuteTimestamps (clean_old cfg t (unblock ?r))))"
    using assms(2,3) len by simp
  from decide_minute_limit[OF this]
  have "snd (checkRateLimit cfg t ?counts1 ip) =
     \<lparr>allowed = False, remaining = 0, resetAt = t + BLOCK_DURATION cfg,
       message = Some (MinuteLimitMessage N)\<rparr>"
    by (simp add: checkRateLimit_open[OF nb] assms(3))
  then show ?thesis
    by (simp add: nows checks_append ds checks_Cons checks_Nil)
qed

theorem threshold_exactness_witness:
  "map (\<lambda>d. (allowed d, message d))
     (snd (checks (RATE_LIMIT_CONFIG 3 60 600000) ''203.0.113.7'' [1000, 2000, 59000, 60999] Map.empty)) =
   [(True, None), (True, None), (True, None), (False, Some (MinuteLimitMessage 3))]"
  using threshold_exactness[of Map.empty "''203.0.113.7''" 3 "RATE_LIMIT_CONFIG 3 60 600000"
      "[1000, 2000, 59000, 60999]"]
  by (simp add: RATE_LIMIT_CONFIG_def numeral_3_eq_3)

section \<open>The block\<close>

lemma run_reads_Cons:
  "run_reads cfg ((ip, now, later) # reqs) counts =
     (fst (run_reads cfg reqs (fst (checkRateLimit_reads cfg now later counts ip))),
      snd (checkRateLimit_reads cfg now later counts ip) #
      snd (run_reads cfg reqs (fst (checkRateLimit_reads cfg now later counts ip))))"
  by (simp split: prod.splits)

lemma checkRateLimit_reads_blocked_Some:
  assumes "counts ip = Some data" and "blockedUntil data = Some b" and "b \<noteq> 0" and "later < b"
  shows "checkRateLimit_reads cfg now later counts ip =
    (counts, \<lparr>allowed = False, remaining = 0, resetAt = b, message = Some (BlockedMessage b)\<rparr>)"
proof -
  have "lookup_data counts ip = data"
    using assms(1) by (simp add: lookup_data_def)
  moreover have "active_block later data"
    using assms(2-4) by (simp add: active_block_def falsy_def date_value_def)
  ultimately show ?thesis
    using checkRateLimit_reads_blocked[of later counts ip cfg now] assms(2)
    by (simp add: date_value_def)
qed

lemma run_reads_blocked:
  assumes "counts ip = Some data" and "blockedUntil data = Some b" and "b \<noteq> 0"
    and "\<forall>r\<in>set reqs. fst r = ip \<and> snd (snd r) < b"
  shows "run_reads cfg reqs counts =
    (counts, replicate (length reqs)
       \<lparr>allowed = False, remaining = 0, resetAt = b, message = Some (BlockedMessage b)\<rparr>)"
  using assms(4)
proof (induction reqs)
  case Nil
  then show ?case by simp
next
  case (Cons r reqs)
  obtain now later where r: "r = (ip, now, later)" and l: "later < b"
    using Cons.prems by (cases r) auto
  from l have "checkRateLimit_reads cfg now later counts ip =
    (counts, \<lparr>allowed = False, remaining = 0, resetAt = b, message = Some (BlockedMessage b)\<rparr>)"
    using assms(1-3) by (rule checkRateLimit_reads_blocked_Some[rotated 3])
  with Cons show ?case
    by (simp add: r run_reads_Cons del: run_reads.simps)
qed

lemma checkRateLimit_reads_expired:
  assumes "counts ip = Some data" and "blockedUntil data = Some b" and "b \<noteq> 0" and "b \<le> later"
  shows "checkRateLimit_reads cfg now later counts ip =
         checkRateLimit_reads cfg now later (counts(ip \<mapsto> data\<lparr>blockedUntil := None\<rparr>)) ip"
proof -
  have l: "lookup_data counts ip = data"
    using assms(1) by (simp add: lookup_data_def)
  have n1: "\<not> active_block later (lookup_data counts ip)"
    using assms(2,4) by (simp add: l active_block_def date_value_def)
  have n2: "\<not> active_block later (lookup_data (counts(ip \<mapsto> data\<lparr>blockedUntil := None\<rparr>)) ip)"
    by (simp add: lookup_data_upd active_block_def falsy_def)
  have u: "unblock data = data\<lparr>blockedUntil := None\<rparr>"
    using assms(2,3) by (simp add: unblock_def falsy_def)
  have u': "unblock (data\<lparr>blockedUntil := None\<rparr>) = data\<lparr>blockedUntil := None\<rparr>"
    by (simp add: unblock_def falsy_def)
  show ?thesis
    by (simp add: checkRateLimit_reads_open[OF n1] checkRateLimit_reads_open[OF n2]
        l lookup_data_upd u u')
qed

text \<open>
  An address blocked by its third call within a minute, on a clock near 1700000000000.
  Its block ends at 1700000602000. A later call that reads the clock 1 ms before the end
  on entry and at the end inside \<open>isBlocked\<close> is admitted, and the recorded hit is the
  reading on entry, which is earlier than \<open>blockedUntil\<close>.
\<close>

theorem block_persistence_counterexample:
  "fst (checks (RATE_LIMIT_CONFIG 2 60 600000) ''A''
          [1700000000000, 1700000001000, 1700000002000] Map.empty) ''A''
     = Some \<lparr>minuteTimestamps = [1700000000000, 1700000001000],
             hourTimestamps = [1700000000000, 1700000001000],
             blockedUntil = Some 1700000602000\<rparr>
   \<and> checkRateLimit_reads (RATE_LIMIT_CONFIG 2 60 600000) 1700000601999 1700000602000
        (fst (checks (RATE_LIMIT_CONFIG 2 60 600000) ''A''
          [1700000000000, 1700000001000, 1700000002000] Map.empty)) ''A''
     = ([''A'' \<mapsto> \<lparr>minuteTimestamps = [1700000601999],
                      hourTimestamps = [1700000000000, 1700000001000, 1700000601999],
                      blockedUntil = None\<rparr>],
        \<lparr>allowed = True, remaining = 1, resetAt = 1700000661999, message = None\<rparr>)"
  by (simp add: checks_def limiter_defs)

text \<open>
  C3 (block persistence), as the code has it. The block is tested on the reading of the
  clock that \<open>isBlocked\<close> takes, after the reading the call took on entry. For a record
  whose \<open>blockedUntil\<close> is set (a non-zero number, which is what \<open>!data.blockedUntil\<close>
  takes for set) and lies within the range of \<open>Date\<close>: every call for the address whose
  reading inside \<open>isBlocked\<close> is before \<open>blockedUntil\<close> is refused with the blocked
  message and \<open>resetAt = blockedUntil\<close>, and leaves the whole map as it was, so the block
  and its end stay through any sequence of such calls; a call whose reading inside
  \<open>isBlocked\<close> is at or after \<open>blockedUntil\<close> gives exactly what it gives on the record
  with \<open>blockedUntil\<close> reset to \<open>null\<close>, map and decision alike, the windows being
  evaluated at the reading on entry.
\<close>

theorem block_persistence:
  assumes "counts ip = Some data" and "blockedUntil data = Some b" and "b \<noteq> 0"
    and "in_Date_range b"
  shows "((\<forall>r\<in>set reqs. fst r = ip \<and> snd (snd r) < b) \<longrightarrow>
            run_reads cfg reqs counts =
              (counts, replicate (length reqs)
                 \<lparr>allowed = False, remaining = 0, resetAt = b,
                  message = Some (BlockedMessage b)\<rparr>))
       \<and> (b \<le> later \<longrightarrow>
            checkRateLimit_reads cfg now later counts ip =
            checkRateLimit_reads cfg now later (counts(ip \<mapsto> data\<lparr>blockedUntil := None\<rparr>)) ip)"
proof (intro conjI impI)
  assume "\<forall>r\<in>set reqs. fst r = ip \<and> snd (snd r) < b"
  with assms(1-3) show "run_reads cfg reqs counts =
      (counts, replicate (length reqs)
         \<lparr>allowed = False, remaining = 0, resetAt = b, message = Some (BlockedMessage b)\<rparr>)"
    by (rule run_reads_blocked)
next
  assume "b \<le> later"
  with assms(1-3) show "checkRateLimit_reads cfg now later counts ip =
      checkRateLimit_reads cfg now later (counts(ip \<mapsto> data\<lparr>blockedUntil := None\<rparr>)) ip"
    by (rule checkRateLimit_reads_expired)
qed

theorem block_persistence_witness:
  "run_reads (RATE_LIMIT_CONFIG 2 60 600000)
      [(''A'', 1700000003000, 1700000003000), (''A'', 1700000601998, 1700000601999)]
      [''A'' \<mapsto> \<lparr>minuteTimestamps = [1700000000000, 1700000001000],
                  hourTimestamps = [1700000000000, 1700000001000],
                  blockedUntil = Some 1700000602000\<rparr>] =
     ([''A'' \<mapsto> \<lparr>minuteTimestamps = [1700000000000, 1700000001000],
                  hourTimestamps = [1700000000000, 1700000001000],
                  blockedUntil = Some 1700000602000\<rparr>],
      [\<lparr>allowed = False, remaining = 0, resetAt = 1700000602000,
        message = Some (BlockedMessage 1700000602000)\<rparr>,
       \<lparr>allowed = False, remaining = 0, resetAt = 1700000602000,
        message = Some (BlockedMessage 1700000602000)\<rparr>])
   \<and> in_Date_range 1700000602000
   \<and> checkRateLimit_reads (RATE_LIMIT_CONFIG 2 60 600000) 1700000601999 1700000602000
        [''A'' \<mapsto> \<lparr>minuteTimestamps = [1700000000000, 1700000001000],
                    hourTimestamps = [1700000000000, 1700000001000],
                    blockedUntil = Some 1700000602000\<rparr>] ''A'' =
      checkRateLimit_reads (RATE_LIMIT_CONFIG 2 60 600000) 1700000601999 1700000602000
        [''A'' \<mapsto> \<lparr>minuteTimestamps = [1700000000000, 1700000001000],
                    hourTimestamps = [1700000000000, 1700000001000],
                    blockedUntil = None\<rparr>] ''A''"
  using block_persistence[of
      "[''A'' \<mapsto> \<lparr>minuteTimestamps = [1700000000000, 1700000001000],
                  hourTimestamps = [1700000000000, 1700000001000],
                  blockedUntil = Some 1700000602000\<rparr>]" "''A''"
      "\<lparr>minuteTimestamps = [1700000000000, 1700000001000],
        hourTimestamps = [1700000000000, 1700000001000], blockedUntil = Some 1700000602000\<rparr>"
      1700000602000
      "[(''A'', 1700000003000, 1700000003000), (''A'', 1700000601998, 1700000601999)]"
      "RATE_LIMIT_CONFIG 2 60 600000" 1700000602000 1700000601999]
  by (simp add: in_Date_range_def)

section \<open>The scenario of the specification\<close>

text \<open>
  Limit 2 per minute, windows and block as in the source (60 s, 600 s), times in
  milliseconds. The block set at \<open>t = 2 s\<close> ends at \<open>t = 602 s\<close>, so the call at
  \<open>t = 601 s\<close> is still refused with the blocked message.
\<close>

theorem scenario_counterexample:
  "map (\<lambda>d. (allowed d, remaining d, message d))
     (snd (checks (RATE_LIMIT_CONFIG 2 60 600000) ''A'' [0, 1000, 2000, 3000, 601000] Map.empty)) =
   [(True, 1, None), (True, 0, None), (False, 0, Some (MinuteLimitMessage 2)),
    (False, 0, Some (BlockedMessage 602000)), (False, 0, Some (BlockedMessage 602000))]"
  by (simp add: checks_def limiter_defs)

text \<open>
  C5 (concrete scenario), as the code has it. Address A at \<open>t = 0\<close> is admitted with
  1 remaining, at \<open>t = 1 s\<close> with 0 remaining; at \<open>t = 2 s\<close> it is refused with the
  per-minute message and \<open>retryAfter = 600\<close>; at \<open>t = 3 s\<close> and still at \<open>t = 601 s\<close> it is
  refused with the blocked message, the block ending at \<open>t = 602 s\<close>; at \<open>t = 602 s\<close> the
  block has run out, the minute list is empty (the hour list still holds the two
  earlier requests) and the request is admitted with 1 remaining.
\<close>

theorem limiter_scenario:
  "map (\<lambda>d. (allowed d, remaining d, message d))
     (snd (checks (RATE_LIMIT_CONFIG 2 60 600000) ''A'' [0, 1000, 2000, 3000, 601000, 602000] Map.empty)) =
   [(True, 1, None), (True, 0, None), (False, 0, Some (MinuteLimitMessage 2)),
    (False, 0, Some (BlockedMessage 602000)), (False, 0, Some (BlockedMessage 602000)),
    (True, 1, None)]
   \<and> retryAfter 2000
        (snd (checks (RATE_LIMIT_CONFIG 2 60 600000) ''A'' [0, 1000, 2000] Map.empty) ! 2) = 600
   \<and> fst (checks (RATE_LIMIT_CONFIG 2 60 600000) ''A'' [0, 1000, 2000, 3000, 601000] Map.empty) ''A'' =
       Some \<lparr>minuteTimestamps = [0, 1000], hourTimestamps = [0, 1000], blockedUntil = Some 602000\<rparr>
   \<and> fst (checks (RATE_LIMIT_CONFIG 2 60 600000) ''A'' [0, 1000, 2000, 3000, 601000, 602000] Map.empty) ''A'' =
       Some \<lparr>minuteTimestamps = [602000], hourTimestamps = [0, 1000, 602000], blockedUntil = None\<rparr>"
  by (simp add: checks_def limiter_defs retryAfter_def)

section \<open>The periodic cleanup\<close>

text \<open>A record without a block is removed by every cleanup once the clock reading exceeds
  \<open>MAX_ENTRY_AGE\<close>, however recent its entries: \<open>data.blockedUntil || 0\<close> puts 0 into the
  minimum.\<close>

lemma sweep_removes_unblocked:
  assumes "counts ip = Some data" and "blockedUntil data = None" and "MAX_ENTRY_AGE < now"
  shows "cleanupOldEntries now counts ip = None"
  using assms by (simp add: cleanupOldEntries_def oldestTimestamp_def or_default_def)

text \<open>
  A record reached by four calls: its two latest entries are 2 and 3 ms old, inside both
  windows, and its block is active; its oldest hour entry is older than \<open>MAX_ENTRY_AGE\<close>,
  and the cleanup removes it.
\<close>

theorem sweep_safety_counterexample:
  "fst (run (RATE_LIMIT_CONFIG 2 60 600000)
          [(''A'', 1000000), (''A'', 1400000), (''A'', 1400001), (''A'', 1400002)] Map.empty) ''A''
     = Some \<lparr>minuteTimestamps = [1400000, 1400001],
             hourTimestamps = [1000000, 1400000, 1400001],
             blockedUntil = Some 2000002\<rparr>
   \<and> 1400003 - MAX_ENTRY_AGE < 1400001
   \<and> cleanupOldEntries 1400003
        (fst (run (RATE_LIMIT_CONFIG 2 60 600000)
          [(''A'', 1000000), (''A'', 1400000), (''A'', 1400001), (''A'', 1400002)] Map.empty)) ''A''
     = None"
  by (simp add: limiter_defs cleanupOldEntries_def oldestTimestamp_def MAX_ENTRY_AGE_def)

text \<open>
  C1 (safety of the cleanup), as the code has it. The cleanup goes by the oldest of the
  first minute entry, the first hour entry and \<open>blockedUntil\<close>. It does not remove a
  record whose \<open>blockedUntil\<close> is set (non-zero) as long as \<open>blockedUntil\<close> and every entry
  of both lists are no older than \<open>now - MAX_ENTRY_AGE\<close>; in particular not while the
  block is active and all entries are that recent.
\<close>

theorem sweep_keeps_recent_blocked:
  assumes "counts ip = Some data"
    and "blockedUntil data = Some b" and "b \<noteq> 0" and "now - b \<le> MAX_ENTRY_AGE"
    and "\<forall>t\<in>set (minuteTimestamps data) \<union> set (hourTimestamps data). now - t \<le> MAX_ENTRY_AGE"
  shows "cleanupOldEntries now counts ip = Some data"
proof -
  have age: "0 \<le> MAX_ENTRY_AGE"
    by (simp add: MAX_ENTRY_AGE_def)
  have m: "now - or_default (first (minuteTimestamps data)) now \<le> MAX_ENTRY_AGE"
    using assms(5) age by (cases "minuteTimestamps data") (auto simp: or_default_def first_def)
  have h: "now - or_default (first (hourTimestamps data)) now \<le> MAX_ENTRY_AGE"
    using assms(5) age by (cases "hourTimestamps data") (auto simp: or_default_def first_def)
  have "or_default (blockedUntil data) 0 = b"
    using assms(2,3) by (simp add: or_default_def)
  with m h assms(4) have "now - oldestTimestamp now data \<le> MAX_ENTRY_AGE"
    by (simp add: oldestTimestamp_def min_def)
  with assms(1) show ?thesis
    by (simp add: cleanupOldEntries_def)
qed

theorem sweep_keeps_recent_blocked_witness:
  "cleanupOldEntries 1400003
      [''A'' \<mapsto> \<lparr>minuteTimestamps = [1400000, 1400001], hourTimestamps = [1400000, 1400001],
                  blockedUntil = Some 2000002\<rparr>] ''A''
     = Some \<lparr>minuteTimestamps = [1400000, 1400001], hourTimestamps = [1400000, 1400001],
             blockedUntil = Some 2000002\<rparr>"
  using sweep_keeps_recent_blocked[of
      "[''A'' \<mapsto> \<lparr>minuteTimestamps = [1400000, 1400001], hourTimestamps = [1400000, 1400001],
                  blockedUntil = Some 2000002\<rparr>]" "''A''"
      "\<lparr>minuteTimestamps = [1400000, 1400001], hourTimestamps = [1400000, 1400001],
                  blockedUntil = Some 2000002\<rparr>" 2000002 1400003]
  by (simp add: MAX_ENTRY_AGE_def)

section \<open>The minute list is a suffix of the hour list\<close>

lemma filter_sorted_suffix:
  assumes "sorted xs" and "\<And>t u. P t \<Longrightarrow> t \<le> u \<Longrightarrow> P u"
  shows "suffix (filter P xs) xs"
  using assms(1)
proof (induction xs)
  case Nil
  then show ?case by simp
next
  case (Cons x xs)
  show ?case
  proof (cases "P x")
    case True
    then have "\<forall>y\<in>set xs. P y"
      using Cons.prems assms(2) by auto
    then have "filter P (x # xs) = x # xs"
      using True by (simp add: filter_all)
    then show ?thesis by simp
  next
    case False
    then show ?thesis
      using Cons by (simp add: suffix_ConsI)
  qed
qed

lemma filter_filter_suffix:
  assumes "sorted xs" and "\<And>t u. P t \<Longrightarrow> t \<le> u \<Longrightarrow> P u" and "\<And>t. P t \<Longrightarrow> Q t"
  shows "suffix (filter P xs) (filter Q xs)"
proof -
  have "filter P xs = filter P (filter Q xs)"
    using assms(3) by (induction xs) auto
  moreover have "suffix (filter P (filter Q xs)) (filter Q xs)"
    using assms(1,2) by (intro filter_sorted_suffix sorted_wrt_filter) 
  ultimately show ?thesis by simp
qed

lemma suffix_filter_windows:
  assumes "sorted hs" and "suffix ms hs" and "wm \<le> (wh::int)"
  shows "suffix (filter (\<lambda>t. now - t < wm) ms) (filter (\<lambda>t. now - t < wh) hs)"
proof -
  from assms(2) obtain zs where hs: "hs = zs @ ms"
    by (auto simp: suffix_def)
  then have "sorted ms"
    using assms(1) by (simp add: sorted_append)
  then have "suffix (filter (\<lambda>t. now - t < wm) ms) (filter (\<lambda>t. now - t < wh) ms)"
    using assms(3) by (intro filter_filter_suffix) auto
  then show ?thesis
    by (auto simp: hs suffix_def)
qed

lemma nested_clean_old:
  assumes "nested T data" and "MINUTE_WINDOW cfg \<le> HOUR_WINDOW cfg"
  shows "nested T (clean_old cfg now (unblock data))"
  using assms
  by (auto simp: nested_def clean_old_unblock intro: suffix_filter_windows sorted_wrt_filter)

lemma nested_decide:
  assumes "nested T data" and "T \<le> now"
  shows "nested now (fst (decide cfg now data))"
proof -
  from assms have s: "sorted (hourTimestamps data @ [now])"
    by (fastforce simp: nested_def sorted_append)
  from assms have b: "\<forall>t\<in>set (hourTimestamps data). t \<le> now"
    by (fastforce simp: nested_def)
  from assms have x: "suffix (minuteTimestamps data) (hourTimestamps data)"
    by (simp add: nested_def)
  show ?thesis
    using decide_cases[of cfg now data] s b x assms(1)
    by (auto simp: nested_def)
qed

lemma nested_mono: "nested T data \<Longrightarrow> T \<le> T' \<Longrightarrow> nested T' data"
  by (fastforce simp: nested_def)

lemma nested_new_data: "nested T new_data"
  by (simp add: nested_def new_data_def)

lemma nested_checkRateLimit:
  assumes "\<forall>ip' data. counts ip' = Some data \<longrightarrow> nested T data"
    and "T \<le> now" and "MINUTE_WINDOW cfg \<le> HOUR_WINDOW cfg"
  shows "\<forall>ip' data. fst (checkRateLimit cfg now counts ip) ip' = Some data \<longrightarrow> nested now data"
proof (cases "active_block now (lookup_data counts ip)")
  case True
  then show ?thesis
    using assms(1,2) by (auto simp: checkRateLimit_blocked intro: nested_mono)
next
  case False
  have "nested T (lookup_data counts ip)"
    using assms(1) by (auto simp: lookup_data_def nested_new_data split: option.splits)
  then have "nested now (fst (decide cfg now (clean_old cfg now (unblock (lookup_data counts ip)))))"
    using assms(2,3) by (intro nested_decide nested_clean_old)
  then show ?thesis
    using assms(1,2) by (auto simp: checkRateLimit_open[OF False] intro: nested_mono)
qed

lemma nested_run:
  assumes "\<forall>ip' data. counts ip' = Some data \<longrightarrow> nested T data"
    and "sorted (T # map snd reqs)" and "MINUTE_WINDOW cfg \<le> HOUR_WINDOW cfg"
  shows "\<exists>T'. \<forall>ip' data. fst (run cfg reqs counts) ip' = Some data \<longrightarrow> nested T' data"
  using assms(1,2)
proof (induction reqs arbitrary: counts T)
  case Nil
  then show ?case by auto
next
  case (Cons req reqs)
  obtain ip now where req: "req = (ip, now)" by (cases req)
  have 1: "\<forall>ip' data. fst (checkRateLimit cfg now counts ip) ip' = Some data \<longrightarrow> nested now data"
    using Cons.prems assms(3) by (intro nested_checkRateLimit) (auto simp: req)
  have 2: "sorted (now # map snd reqs)"
    using Cons.prems(2) by (simp add: req)
  from Cons.IH[OF 1 2] show ?case
    by (simp add: req run_Cons del: run.simps)
qed

text \<open>
  C10 (nesting of the windows). With \<open>MINUTE_WINDOW \<le> HOUR_WINDOW\<close> and clock readings
  that never decrease, after any sequence of calls that starts from the empty map, for
  any addresses, the minute list of every record is a suffix of its hour list.
\<close>

theorem window_nesting:
  assumes "MINUTE_WINDOW cfg \<le> HOUR_WINDOW cfg"
    and "sorted (map snd reqs)"
    and "fst (run cfg reqs Map.empty) ip = Some data"
  shows "suffix (minuteTimestamps data) (hourTimestamps data)"
proof (cases reqs)
  case Nil
  with assms(3) show ?thesis by simp
next
  case (Cons req reqs')
  have h1: "\<forall>ip' data. (Map.empty :: requestCounts) ip' = Some data \<longrightarrow> nested (snd req) data"
    by simp
  have h2: "sorted (snd req # map snd reqs)"
    using assms(2) Cons by simp
  have "\<exists>T'. \<forall>ip' data. fst (run cfg reqs Map.empty) ip' = Some data \<longrightarrow> nested T' data"
    using h1 h2 assms(1) by (rule nested_run)
  then obtain T' where
    "\<forall>ip' data. fst (run cfg reqs Map.empty) ip' = Some data \<longrightarrow> nested T' data"
    by blast
  with assms(3) show ?thesis
    by (auto simp: nested_def)
qed

theorem window_nesting_witness:
  "fst (run (RATE_LIMIT_CONFIG 10 60 600000)
         [(''A'', 1000), (''B'', 2000), (''A'', 30000), (''A'', 70000), (''A'', 3620000)] Map.empty) ''A''
     = Some \<lparr>minuteTimestamps = [3620000], hourTimestamps = [30000, 70000, 3620000],
             blockedUntil = None\<rparr>
   \<and> suffix [3620000] [30000, 70000, 3620000 :: int]"
  using window_nesting[of "RATE_LIMIT_CONFIG 10 60 600000"
      "[(''A'', 1000), (''B'', 2000), (''A'', 30000), (''A'', 70000), (''A'', 3620000)]" "''A''"
      "\<lparr>minuteTimestamps = [3620000], hourTimestamps = [30000, 70000, 3620000],
             blockedUntil = None\<rparr>"]
  by (simp add: limiter_defs)

end
